theory Spec2Isabelle
  imports Main
begin

section \<open>The import worker of SQLiteStudio (coreSQLiteStudio/importworker.cpp)\<close>

text \<open>
  The worker talks to three collaborators that are not part of importworker.cpp: the import
  plugin (the row source), the database, and the notification sink. The answers they give
  are inputs of the model (the record \<open>env\<close>); everything the worker does to them, and
  every signal it emits, is recorded in order as a list of events. A run is then a function
  from the collaborators' answers to the final member variables and the trace.

  The counters \<open>rowCnt\<close>, \<open>colCount\<close> and the list sizes are C++ \<open>int\<close>; they only
  count upwards from zero and are natural numbers here. Signed overflow (undefined in C++)
  needs more than \<open>2^31 - 1\<close> rows and is outside the model. The debug output and the
  timer of \<open>importData\<close> and the flags set on the prepared statement have no effect on
  the control flow and are left out. \<open>tr(...)\<close> is the identity (the untranslated
  messages), and \<open>QString::arg\<close> puts its arguments in the places of \<open>%1\<close> and \<open>%2\<close>.

  The flag \<open>interrupted\<close> is set by another thread at a time the worker does not
  choose. The worker sees it only when \<open>isInterrupted()\<close> reads it, so the model takes
  the value of each read as an input, with no assumption on how the values of successive
  reads are related.
\<close>

subsection \<open>Values and configuration\<close>

text \<open>A \<open>QVariant\<close>; \<open>NullString\<close> is \<open>QVariant(QVariant::String)\<close>, the null
  variant of string type that pads a short row.\<close>

datatype qvariant = NullString | Text string | Number int | Binary string

record StandardImportConfig =
  skipTransaction :: bool
  ignoreErrors :: bool

datatype db_flag = NONE | NO_LOCK

subsection \<open>The collaborators' answers\<close>

record env =
  config :: StandardImportConfig
  table :: string
  wrapObjIfNeeded :: "string \<Rightarrow> string"
    \<comment> \<open>dialect-aware quoting of common/utils.h, for the dialect of the database\<close>
  plugin_beforeImport :: bool
  plugin_getColumns :: "(string \<times> string) list"
  plugin_rows :: "qvariant list list"
    \<comment> \<open>what the successive calls of \<open>plugin->next()\<close> return; after the last one,
        \<open>next()\<close> returns the empty list\<close>
  db_begin :: bool
  db_commit :: bool
  db_getErrorText :: string
    \<comment> \<open>the error text of the database after a failed begin or commit\<close>
  getTableColumns :: "string list"
  db_exec :: "string \<Rightarrow> db_flag \<Rightarrow> string option"
    \<comment> \<open>the result of executing a statement: \<open>None\<close> when \<open>isError()\<close> is false,
        \<open>Some\<close> of the error text otherwise\<close>
  query_execute :: "nat \<Rightarrow> qvariant list \<Rightarrow> string option"
    \<comment> \<open>the result of \<open>query->execute()\<close> for the row with counter \<open>rowCnt\<close> and
        the bound arguments: \<open>None\<close> for true, \<open>Some\<close> of \<open>getErrorText()\<close> for false\<close>
  interrupted_after_prepare :: bool
    \<comment> \<open>the value of the flag \<open>interrupted\<close> when \<open>prepareTable\<close> reads it\<close>
  interrupted_at_row :: "nat \<Rightarrow> bool"
    \<comment> \<open>the value of the flag when \<open>importData\<close> reads it with counter \<open>rowCnt\<close>\<close>

subsection \<open>The trace\<close>

datatype event =
    BeforeImport bool
  | GetColumns
  | Next "qvariant list"
  | AfterImport
  | Begin bool
  | Commit bool
  | Rollback
  | GetTableColumns
  | Exec string db_flag "string option"
  | Prepare string
  | Execute "qvariant list" "string option"
  | IsInterrupted bool
  | NotifyError string
  | NotifyWarn string
  | NotifyInfo string
  | CreatedTable string
  | Finished bool

subsection \<open>The member variables\<close>

record worker =
  columnsFromPlugin :: "string list"
  columnTypesFromPlugin :: "string list"
  tableColumns :: "string list"
  targetColumns :: "string list"
  tableCreated :: bool

text \<open>
  Modelled from the spec: the initial values of the members, which importworker.h (not
  among the sources) declares. A worker is created for one run and no state is retained
  from one run to the next: the lists start empty and \<open>tableCreated\<close> starts false.
\<close>

definition new_worker :: worker where
  "new_worker = \<lparr>columnsFromPlugin = [], columnTypesFromPlugin = [], tableColumns = [],
     targetColumns = [], tableCreated = False\<rparr>"

subsection \<open>Strings of Qt\<close>

text \<open>\<open>QStringList::join\<close>.\<close>

fun join :: "string \<Rightarrow> string list \<Rightarrow> string" where
  "join sep [] = []"
| "join sep [x] = x"
| "join sep (x # y # ys) = x @ sep @ join sep (y # ys)"

text \<open>\<open>QString::trimmed\<close>, on the white space of ASCII.\<close>

definition isSpace :: "char \<Rightarrow> bool" where
  "isSpace c = (c = CHR '' '' \<or> c = CHR 0x09 \<or> c = CHR 0x0A \<or> c = CHR 0x0B
     \<or> c = CHR 0x0C \<or> c = CHR 0x0D)"

definition trimmed :: "string \<Rightarrow> string" where
  "trimmed s = rev (dropWhile isSpace (rev (dropWhile isSpace s)))"

text \<open>\<open>QString::number\<close> on a number that is not negative.\<close>

definition digit :: "nat \<Rightarrow> char" where
  "digit d = char_of (48 + d)"

function QString_number :: "nat \<Rightarrow> string" where
  "QString_number n =
     (if n < 10 then [digit n] else QString_number (n div 10) @ [digit (n mod 10)])"
  by pat_completeness auto
termination
  by (relation "measure id") auto

declare QString_number.simps [simp del]

subsection \<open>The worker\<close>

definition readPluginColumns :: "env \<Rightarrow> worker \<Rightarrow> worker" where
  "readPluginColumns env w =
     w\<lparr>columnsFromPlugin := columnsFromPlugin w @ map fst (plugin_getColumns env),
       columnTypesFromPlugin := columnTypesFromPlugin w @ map snd (plugin_getColumns env)\<rparr>"

text \<open>\<open>ImportWorker::error\<close>: the notification, the plugin's hook, the signal.\<close>

definition error :: "string \<Rightarrow> event list" where
  "error err = [NotifyError err, AfterImport, Finished False]"

definition interruptedMessage :: string where
  "interruptedMessage = ''Error while importing data: '' @ ''Interrupted.''"

definition lessColumnsMessage :: "string \<Rightarrow> string" where
  "lessColumnsMessage t = ''Table '' @ [CHR 0x27] @ t @ [CHR 0x27] @
     '' has less columns than there are columns in the data to be imported. Excessive data columns will be ignored.''"

definition moreColumnsMessage :: "string \<Rightarrow> string" where
  "moreColumnsMessage t = ''Table '' @ [CHR 0x27] @ t @ [CHR 0x27] @
     '' has more columns than there are columns in the data to be imported. Some columns in the table will be left empty.''"

definition createTableMessage :: "string \<Rightarrow> string" where
  "createTableMessage e = ''Could not create table to import to: '' @ e"

definition rowIgnoredMessage :: "nat \<Rightarrow> string \<Rightarrow> string" where
  "rowIgnoredMessage n e = ''Could not import data row number '' @ QString_number n @
     ''. The row was ignored. Problem details: '' @ e"

definition rowErrorMessage :: "string \<Rightarrow> string" where
  "rowErrorMessage e = ''Error while importing data: '' @ e"

definition beginMessage :: "string \<Rightarrow> string" where
  "beginMessage e = ''Could not start transaction in order to import a data: '' @ e"

definition commitMessage :: "string \<Rightarrow> string" where
  "commitMessage e = ''Could not commit transaction for imported data: '' @ e"

definition noColumnsMessage :: string where
  "noColumnsMessage = ''No columns provided by the import plugin.''"

text \<open>The column definitions of the CREATE TABLE statement, by index as the loop of
  \<open>prepareTable\<close> builds them, and the statement itself.\<close>

definition colDefs :: "env \<Rightarrow> worker \<Rightarrow> string list" where
  "colDefs env w =
     map (\<lambda>i. trimmed (wrapObjIfNeeded env (columnsFromPlugin w ! i) @ '' '' @
                columnTypesFromPlugin w ! i))
       [0 ..< length (columnsFromPlugin w)]"

definition ddl :: "env \<Rightarrow> worker \<Rightarrow> string" where
  "ddl env w = ''CREATE TABLE '' @ wrapObjIfNeeded env (table env) @ '' ('' @
     join '', '' (colDefs env w) @ '')''"

definition createFlags :: "env \<Rightarrow> db_flag" where
  "createFlags env = (if skipTransaction (config env) then NO_LOCK else NONE)"

text \<open>The check of the flag that ends \<open>prepareTable\<close>, with the final column list of
  the branch taken before it. \<open>wrapObjNamesIfNeeded\<close> (common/utils.h) quotes each name
  of a list as \<open>wrapObjIfNeeded\<close> does.\<close>

definition finishPrepare :: "env \<Rightarrow> worker \<Rightarrow> string list \<Rightarrow> bool \<times> worker \<times> event list" where
  "finishPrepare env w finalColumns =
     (if interrupted_after_prepare env
      then (False, w, [IsInterrupted True] @ error interruptedMessage)
      else (True, w\<lparr>targetColumns := map (wrapObjIfNeeded env) finalColumns\<rparr>,
            [IsInterrupted False]))"

definition prepareTable :: "env \<Rightarrow> worker \<Rightarrow> bool \<times> worker \<times> event list" where
  "prepareTable env w0 =
     (let w = w0\<lparr>tableColumns := getTableColumns env\<rparr> in
      if length (tableColumns w) > 0 then
        (if length (tableColumns w) < length (columnsFromPlugin w) then
           (case finishPrepare env w (tableColumns w) of
              (ok, w', evs) \<Rightarrow>
                (ok, w', [GetTableColumns, NotifyWarn (lessColumnsMessage (table env))] @ evs))
         else if length (tableColumns w) > length (columnsFromPlugin w) then
           (case finishPrepare env w (take (length (columnsFromPlugin w)) (tableColumns w)) of
              (ok, w', evs) \<Rightarrow>
                (ok, w', [GetTableColumns, NotifyInfo (moreColumnsMessage (table env))] @ evs))
         else
           (case finishPrepare env w (tableColumns w) of
              (ok, w', evs) \<Rightarrow> (ok, w', [GetTableColumns] @ evs)))
      else
        (case db_exec env (ddl env w) (createFlags env) of
           Some e \<Rightarrow>
             (False, w, [GetTableColumns, Exec (ddl env w) (createFlags env) (Some e)] @
                        error (createTableMessage e))
         | None \<Rightarrow>
             (case finishPrepare env (w\<lparr>tableCreated := True\<rparr>) (columnsFromPlugin w) of
                (ok, w', evs) \<Rightarrow>
                  (ok, w', [GetTableColumns, Exec (ddl env w) (createFlags env) None] @ evs))))"

text \<open>The arguments bound for a row: padded with null strings up to \<open>colCount\<close>, then
  cut by \<open>mid(0, colCount)\<close>.\<close>

definition bindArgs :: "nat \<Rightarrow> qvariant list \<Rightarrow> qvariant list" where
  "bindArgs colCount row =
     take colCount (row @ replicate (colCount - length row) NullString)"

text \<open>The INSERT statement, one placeholder for each target column. It names no column:
  the list \<open>targetColumns\<close> enters it through its length only.\<close>

definition theInsert :: "env \<Rightarrow> nat \<Rightarrow> string" where
  "theInsert env colCount = ''INSERT INTO '' @ wrapObjIfNeeded env (table env) @
     '' VALUES ('' @ join '', '' (replicate colCount ''?'') @ '')''"

text \<open>The loop of \<open>importData\<close>, on the rows the plugin has left to return. The loop
  ends when \<open>next()\<close> returns a list of size zero: at the end of the rows, or at a row
  that is empty.\<close>

fun importLoop :: "env \<Rightarrow> nat \<Rightarrow> nat \<Rightarrow> qvariant list list \<Rightarrow> bool \<times> event list" where
  "importLoop env colCount rowCnt [] = (True, [Next []])"
| "importLoop env colCount rowCnt (row # rest) =
     (if length row > 0 then
        (let args = bindArgs colCount row;
             res = query_execute env rowCnt args;
             warn = (case res of None \<Rightarrow> []
                     | Some e \<Rightarrow> [NotifyWarn (rowIgnoredMessage (rowCnt + 1) e)])
         in
           if res \<noteq> None \<and> \<not> ignoreErrors (config env) then
             (False, [Next row, Execute args res] @ error (rowErrorMessage (the res)))
           else if rowCnt mod 100 = 0 \<and> interrupted_at_row env rowCnt then
             (False, [Next row, Execute args res] @ warn @ [IsInterrupted True] @
                     error interruptedMessage)
           else
             (case importLoop env colCount (rowCnt + 1) rest of
                (ok, evs) \<Rightarrow>
                  (ok, [Next row, Execute args res] @ warn @
                       (if rowCnt mod 100 = 0 then [IsInterrupted False] else []) @ evs)))
      else (True, [Next row]))"

definition importData :: "env \<Rightarrow> worker \<Rightarrow> bool \<times> event list" where
  "importData env w =
     (let colCount = length (targetColumns w) in
      case importLoop env colCount 0 (plugin_rows env) of
        (ok, evs) \<Rightarrow> (ok, [Prepare (theInsert env colCount)] @ evs))"

definition rollbackUnlessSkipped :: "env \<Rightarrow> event list" where
  "rollbackUnlessSkipped env = (if \<not> skipTransaction (config env) then [Rollback] else [])"

definition run :: "env \<Rightarrow> worker \<times> event list" where
  "run env =
     (if \<not> plugin_beforeImport env then
        (new_worker, [BeforeImport False, Finished False])
      else
        let w = readPluginColumns env new_worker;
            ev1 = [BeforeImport True, GetColumns]
        in
        if length (columnsFromPlugin w) = 0 then (w, ev1 @ error noColumnsMessage)
        else if \<not> skipTransaction (config env) \<and> \<not> db_begin env then
          (w, ev1 @ [Begin False] @ error (beginMessage (db_getErrorText env)))
        else
          let ev2 = ev1 @ (if skipTransaction (config env) then [] else [Begin True]) in
          case prepareTable env w of
            (False, w', evp) \<Rightarrow> (w', ev2 @ evp @ rollbackUnlessSkipped env)
          | (True, w', evp) \<Rightarrow>
              (case importData env w' of
                 (False, evi) \<Rightarrow> (w', ev2 @ evp @ evi @ rollbackUnlessSkipped env)
               | (True, evi) \<Rightarrow>
                   if \<not> skipTransaction (config env) \<and> \<not> db_commit env then
                     (w', ev2 @ evp @ evi @ [Commit False] @
                          error (commitMessage (db_getErrorText env)) @
                          rollbackUnlessSkipped env)
                   else
                     (w', ev2 @ evp @ evi @
                          (if skipTransaction (config env) then [] else [Commit True]) @
                          (if tableCreated w' then [CreatedTable (table env)] else []) @
                          [AfterImport, Finished True])))"

subsection \<open>What a trace does to the database\<close>

text \<open>
  Modelled from the spec: the transaction semantics of the destination (db/db.h is not
  among the sources). A statement that succeeds inside a transaction is pending until a
  successful commit makes it durable or a rollback discards it; a statement that succeeds
  outside a transaction is durable at once (with \<open>skipTransaction\<close> each row's effect is
  permanent as soon as executed).
\<close>

datatype statement = CreateTable string | InsertRow "qvariant list"

record database =
  durable :: "statement list"
  pending :: "statement list"
  inTransaction :: bool

definition empty_database :: database where
  "empty_database = \<lparr>durable = [], pending = [], inTransaction = False\<rparr>"

definition apply_statement :: "database \<Rightarrow> statement \<Rightarrow> database" where
  "apply_statement d s =
     (if inTransaction d then d\<lparr>pending := pending d @ [s]\<rparr>
      else d\<lparr>durable := durable d @ [s]\<rparr>)"

fun effect :: "database \<Rightarrow> event \<Rightarrow> database" where
  "effect d (Begin ok) = (if ok then d\<lparr>inTransaction := True\<rparr> else d)"
| "effect d (Commit ok) =
     (if ok then d\<lparr>durable := durable d @ pending d, pending := [], inTransaction := False\<rparr>
      else d)"
| "effect d Rollback = d\<lparr>pending := [], inTransaction := False\<rparr>"
| "effect d (Exec sql f res) = (if res = None then apply_statement d (CreateTable sql) else d)"
| "effect d (Execute args res) = (if res = None then apply_statement d (InsertRow args) else d)"
| "effect d e = d"

definition database_after :: "event list \<Rightarrow> database" where
  "database_after evs = foldl effect empty_database evs"

text \<open>The statements of a trace that succeeded, in order.\<close>

fun succeeded :: "event \<Rightarrow> statement list" where
  "succeeded (Exec sql f None) = [CreateTable sql]"
| "succeeded (Execute args None) = [InsertRow args]"
| "succeeded e = []"

definition applied :: "event list \<Rightarrow> statement list" where
  "applied evs = concat (map succeeded evs)"

subsection \<open>Reading a trace\<close>

text \<open>The events of the body of a run: the reads of the schema and of the flag, the
  statements, the rows fetched, warnings and notices. The transaction control, the
  plugin's hooks, error notifications and the signals are the others.\<close>

fun body_event :: "event \<Rightarrow> bool" where
  "body_event GetTableColumns = True"
| "body_event (Exec sql f res) = True"
| "body_event (Prepare sql) = True"
| "body_event (Next row) = True"
| "body_event (Execute args res) = True"
| "body_event (IsInterrupted b) = True"
| "body_event (NotifyWarn m) = True"
| "body_event (NotifyInfo m) = True"
| "body_event e = False"

definition afterImports :: "event list \<Rightarrow> nat" where
  "afterImports evs = length (filter (\<lambda>e. e = AfterImport) evs)"

fun is_Finished :: "event \<Rightarrow> bool" where
  "is_Finished (Finished b) = True"
| "is_Finished e = False"

definition finishes :: "event list \<Rightarrow> nat" where
  "finishes evs = length (filter is_Finished evs)"

fun is_Execute :: "event \<Rightarrow> bool" where
  "is_Execute (Execute args res) = True"
| "is_Execute e = False"

fun is_Next :: "event \<Rightarrow> bool" where
  "is_Next (Next row) = True"
| "is_Next e = False"

fun warning :: "event \<Rightarrow> string list" where
  "warning (NotifyWarn m) = [m]"
| "warning e = []"

definition warnings :: "event list \<Rightarrow> string list" where
  "warnings evs = concat (map warning evs)"

definition executes :: "event list \<Rightarrow> nat" where
  "executes evs = length (filter is_Execute evs)"

text \<open>The warnings and informational notices of a trace.\<close>

fun is_notice :: "event \<Rightarrow> bool" where
  "is_notice (NotifyWarn m) = True"
| "is_notice (NotifyInfo m) = True"
| "is_notice e = False"

definition notices :: "event list \<Rightarrow> event list" where
  "notices evs = filter is_notice evs"

definition nexts :: "event list \<Rightarrow> nat" where
  "nexts evs = length (filter is_Next evs)"

text \<open>The number of statements executed before each read of the flag, in order: \<open>0\<close>
  for a read before the first row, \<open>n\<close> for a read after the \<open>n\<close>-th row.\<close>

fun poll_positions :: "nat \<Rightarrow> event list \<Rightarrow> nat list" where
  "poll_positions n [] = []"
| "poll_positions n (IsInterrupted b # evs) = n # poll_positions n evs"
| "poll_positions n (Execute args res # evs) = poll_positions (Suc n) evs"
| "poll_positions n (e # evs) = poll_positions n evs"


subsection \<open>The shape of a trace\<close>

text \<open>A body event that makes the worker give up, with the message of the error it
  reports: a failed CREATE TABLE, a failed row when errors are not ignored, the flag read
  as set. Every other body event lets the worker go on.\<close>

fun cause :: "bool \<Rightarrow> event \<Rightarrow> string option" where
  "cause ign (Exec sql f (Some e)) = Some (createTableMessage e)"
| "cause ign (Execute args (Some e)) = (if ign then None else Some (rowErrorMessage e))"
| "cause ign (IsInterrupted True) = Some interruptedMessage"
| "cause ign e = None"

definition passed_event :: "bool \<Rightarrow> event \<Rightarrow> bool" where
  "passed_event ign e \<longleftrightarrow> body_event e \<and> cause ign e = None"

definition fails_with :: "bool \<Rightarrow> event list \<Rightarrow> bool" where
  "fails_with ign evs \<longleftrightarrow>
     (\<exists>b f msg. evs = b @ f # error msg \<and> list_all (passed_event ign) b \<and>
        body_event f \<and> cause ign f = Some msg)"

text \<open>The worker of a run after \<open>readPluginColumns\<close> and after \<open>prepareTable\<close>,
  and the events of a run around its body.\<close>

definition pluginWorker :: "env \<Rightarrow> worker" where
  "pluginWorker env = readPluginColumns env new_worker"

definition preparedWorker :: "env \<Rightarrow> worker" where
  "preparedWorker env = fst (snd (prepareTable env (pluginWorker env)))"

definition beginEvents :: "env \<Rightarrow> event list" where
  "beginEvents env = (if skipTransaction (config env) then [] else [Begin True])"

definition commitEvents :: "env \<Rightarrow> event list" where
  "commitEvents env = (if skipTransaction (config env) then [] else [Commit True])"

definition createdEvents :: "env \<Rightarrow> worker \<Rightarrow> event list" where
  "createdEvents env w = (if tableCreated w then [CreatedTable (table env)] else [])"

subsection \<open>Rows that let the loop go on\<close>

text \<open>The row with counter \<open>k\<close> lets the loop of \<open>importData\<close> go on to the next
  row when it is not empty, its statement succeeds or errors are ignored, and the flag is not
  read as set after it.\<close>

definition passes :: "env \<Rightarrow> nat \<Rightarrow> nat \<Rightarrow> qvariant list \<Rightarrow> bool" where
  "passes env colCount k row \<longleftrightarrow>
     row \<noteq> [] \<and>
     (query_execute env k (bindArgs colCount row) = None \<or> ignoreErrors (config env)) \<and>
     \<not> (k mod 100 = 0 \<and> interrupted_at_row env k)"

fun all_pass :: "env \<Rightarrow> nat \<Rightarrow> nat \<Rightarrow> qvariant list list \<Rightarrow> bool" where
  "all_pass env colCount k [] = True"
| "all_pass env colCount k (row # rest) =
     (passes env colCount k row \<and> all_pass env colCount (Suc k) rest)"

text \<open>What the loop does for such a row, and for a list of them.\<close>

definition rowEvents :: "env \<Rightarrow> nat \<Rightarrow> nat \<Rightarrow> qvariant list \<Rightarrow> event list" where
  "rowEvents env colCount k row =
     [Next row, Execute (bindArgs colCount row) (query_execute env k (bindArgs colCount row))] @
     (case query_execute env k (bindArgs colCount row) of
        None \<Rightarrow> []
      | Some e \<Rightarrow> [NotifyWarn (rowIgnoredMessage (k + 1) e)]) @
     (if k mod 100 = 0 then [IsInterrupted False] else [])"

fun passEvents :: "env \<Rightarrow> nat \<Rightarrow> nat \<Rightarrow> qvariant list list \<Rightarrow> event list" where
  "passEvents env colCount k [] = []"
| "passEvents env colCount k (row # rest) =
     rowEvents env colCount k row @ passEvents env colCount (Suc k) rest"

text \<open>The zero-based positions of the rows of a list whose statement fails, and of
  those whose statement succeeds, when every row of the list is executed.\<close>

definition failedRows :: "env \<Rightarrow> nat \<Rightarrow> qvariant list list \<Rightarrow> nat list" where
  "failedRows env colCount rows =
     filter (\<lambda>i. query_execute env i (bindArgs colCount (rows ! i)) \<noteq> None) [0 ..< length rows]"


subsection \<open>Example collaborators\<close>

text \<open>A transactional import of three rows into a table that does not exist yet; the
  second row is rejected by the database and errors are ignored.\<close>

definition example_env :: env where
  "example_env =
     \<lparr>config = \<lparr>skipTransaction = False, ignoreErrors = True\<rparr>,
      table = ''people'',
      wrapObjIfNeeded = (\<lambda>s. s),
      plugin_beforeImport = True,
      plugin_getColumns = [(''name'', ''TEXT''), (''age'', ''INTEGER'')],
      plugin_rows = [[Text ''ann'', Number 31], [Text ''bob''], [Text ''cy'', Number 7, Number 9]],
      db_begin = True,
      db_commit = True,
      db_getErrorText = ''disk I/O error'',
      getTableColumns = [],
      db_exec = (\<lambda>sql f. None),
      query_execute = (\<lambda>k args. if k = 1 then Some ''NOT NULL constraint failed'' else None),
      interrupted_after_prepare = False,
      interrupted_at_row = (\<lambda>k. False)\<rparr>"

text \<open>The same import with \<open>ignoreErrors = false\<close>.\<close>

definition example_strict_env :: env where
  "example_strict_env =
     example_env\<lparr>config := \<lparr>skipTransaction = False, ignoreErrors = False\<rparr>\<rparr>"

text \<open>The same import when the flag is set by the time the first row has been executed,
  into a table that exists already, and from a source whose second row is empty.\<close>

definition example_interrupted_env :: env where
  "example_interrupted_env = example_env\<lparr>interrupted_at_row := (\<lambda>k. True)\<rparr>"

definition example_existing_env :: env where
  "example_existing_env = example_env\<lparr>getTableColumns := [''name'', ''age'', ''city'']\<rparr>"

definition example_empty_row_env :: env where
  "example_empty_row_env =
     example_env\<lparr>plugin_rows := [[Text ''ann'', Number 31], [], [Text ''cy'']]\<rparr>"

section \<open>Properties\<close>

subsection \<open>The shape of the trace of a run\<close>

lemma fails_with_cause:
  "body_event f \<Longrightarrow> cause ign f = Some msg \<Longrightarrow> fails_with ign (f # error msg)"
  unfolding fails_with_def by (rule exI [of _ "[]"]) auto

lemma fails_with_Cons:
  assumes e: "passed_event ign e" and f: "fails_with ign evs"
  shows "fails_with ign (e # evs)"
proof -
  from f obtain b f msg where "evs = b @ f # error msg" "list_all (passed_event ign) b"
    "body_event f" "cause ign f = Some msg"
    unfolding fails_with_def by blast
  with e have "e # evs = (e # b) @ f # error msg \<and> list_all (passed_event ign) (e # b)
      \<and> body_event f \<and> cause ign f = Some msg"
    by simp
  then show ?thesis unfolding fails_with_def by blast
qed

lemma passed_event_simps [simp]:
  "passed_event ign GetTableColumns"
  "passed_event ign (Exec sql f res) \<longleftrightarrow> res = None"
  "passed_event ign (Prepare sql)"
  "passed_event ign (Next row)"
  "passed_event ign (Execute args res) \<longleftrightarrow> res = None \<or> ign"
  "passed_event ign (IsInterrupted b) \<longleftrightarrow> \<not> b"
  "passed_event ign (NotifyWarn m)"
  "passed_event ign (NotifyInfo m)"
  "\<not> passed_event ign (BeforeImport b)"
  "\<not> passed_event ign GetColumns"
  "\<not> passed_event ign AfterImport"
  "\<not> passed_event ign (Begin b)"
  "\<not> passed_event ign (Commit b)"
  "\<not> passed_event ign Rollback"
  "\<not> passed_event ign (NotifyError m)"
  "\<not> passed_event ign (CreatedTable t)"
  "\<not> passed_event ign (Finished b)"
  by (cases res; cases b; simp add: passed_event_def)+


lemma finishPrepare_cases:
  "finishPrepare env w fc =
     (if interrupted_after_prepare env
      then (False, w, IsInterrupted True # error interruptedMessage)
      else (True, w\<lparr>targetColumns := map (wrapObjIfNeeded env) fc\<rparr>, [IsInterrupted False]))"
  by (simp add: finishPrepare_def)

lemma prepareTable_shape:
  "prepareTable env w = (ok, w', evs) \<Longrightarrow>
     (if ok then list_all (passed_event ign) evs else fails_with ign evs)"
  by (auto simp: prepareTable_def Let_def finishPrepare_cases
      split: if_splits option.splits
      intro!: fails_with_Cons fails_with_cause)

lemma importLoop_shape:
  "importLoop env c k rows = (ok, evs) \<Longrightarrow>
     (if ok then list_all (passed_event (ignoreErrors (config env))) evs
      else fails_with (ignoreErrors (config env)) evs)"
proof (induction rows arbitrary: k ok evs)
  case Nil
  then show ?case by auto
next
  case (Cons row rest)
  show ?case
  proof (cases "row = []")
    case True
    with Cons.prems show ?thesis by auto
  next
    case False
    obtain ok' evs' where r: "importLoop env c (k + 1) rest = (ok', evs')"
      by (cases "importLoop env c (k + 1) rest")
    note ih = Cons.IH [OF r]
    show ?thesis using Cons.prems False ih r
      by (auto simp: Let_def split: if_splits option.splits
          intro!: fails_with_Cons fails_with_cause)
  qed
qed

lemma importData_shape:
  "importData env w = (ok, evs) \<Longrightarrow>
     (if ok then list_all (passed_event (ignoreErrors (config env))) evs
      else fails_with (ignoreErrors (config env)) evs)"
  by (auto simp: importData_def Let_def split: prod.splits if_splits
      dest!: importLoop_shape intro!: fails_with_Cons)

lemma columnsFromPlugin_pluginWorker:
  "columnsFromPlugin (pluginWorker env) = map fst (plugin_getColumns env)"
  by (simp add: pluginWorker_def readPluginColumns_def new_worker_def)

lemma run_unfold:
  assumes "plugin_beforeImport env" "plugin_getColumns env \<noteq> []"
    "skipTransaction (config env) \<or> db_begin env"
  shows "run env =
    (case prepareTable env (pluginWorker env) of
       (False, w', evp) \<Rightarrow>
         (w', [BeforeImport True, GetColumns] @ beginEvents env @ evp @ rollbackUnlessSkipped env)
     | (True, w', evp) \<Rightarrow>
         (case importData env w' of
            (False, evi) \<Rightarrow>
              (w', [BeforeImport True, GetColumns] @ beginEvents env @ (evp @ evi) @
                   rollbackUnlessSkipped env)
          | (True, evi) \<Rightarrow>
              if \<not> skipTransaction (config env) \<and> \<not> db_commit env then
                (w', [BeforeImport True, GetColumns] @ beginEvents env @ (evp @ evi) @
                     [Commit False] @ error (commitMessage (db_getErrorText env)) @ [Rollback])
              else
                (w', [BeforeImport True, GetColumns] @ beginEvents env @ (evp @ evi) @
                     commitEvents env @ createdEvents env w' @ [AfterImport, Finished True])))"
  using assms columnsFromPlugin_pluginWorker [of env]
  by (auto simp: run_def Let_def pluginWorker_def beginEvents_def commitEvents_def
      createdEvents_def rollbackUnlessSkipped_def split: prod.splits bool.splits)

lemma run_cases [case_names setup_failed no_columns begin_failed body_failed commit_failed success]:
  obtains
    (setup_failed) "\<not> plugin_beforeImport env"
      "run env = (new_worker, [BeforeImport False, Finished False])"
  | (no_columns) "plugin_beforeImport env" "plugin_getColumns env = []"
      "run env = (pluginWorker env, [BeforeImport True, GetColumns] @ error noColumnsMessage)"
  | (begin_failed) "plugin_beforeImport env" "plugin_getColumns env \<noteq> []"
      "\<not> skipTransaction (config env)" "\<not> db_begin env"
      "run env = (pluginWorker env, [BeforeImport True, GetColumns, Begin False] @
         error (beginMessage (db_getErrorText env)))"
  | (body_failed) b f msg where "plugin_beforeImport env" "plugin_getColumns env \<noteq> []"
      "skipTransaction (config env) \<or> db_begin env"
      "list_all (passed_event (ignoreErrors (config env))) b"
      "body_event f" "cause (ignoreErrors (config env)) f = Some msg"
      "run env = (preparedWorker env, [BeforeImport True, GetColumns] @ beginEvents env @
         b @ f # error msg @ rollbackUnlessSkipped env)"
  | (commit_failed) b where "plugin_beforeImport env" "plugin_getColumns env \<noteq> []"
      "\<not> skipTransaction (config env)" "db_begin env" "\<not> db_commit env"
      "list_all (passed_event (ignoreErrors (config env))) b"
      "run env = (preparedWorker env, [BeforeImport True, GetColumns] @ beginEvents env @
         b @ [Commit False] @ error (commitMessage (db_getErrorText env)) @ [Rollback])"
  | (success) b where "plugin_beforeImport env" "plugin_getColumns env \<noteq> []"
      "skipTransaction (config env) \<or> db_begin env"
      "skipTransaction (config env) \<or> db_commit env"
      "list_all (passed_event (ignoreErrors (config env))) b"
      "run env = (preparedWorker env, [BeforeImport True, GetColumns] @ beginEvents env @
         b @ commitEvents env @ createdEvents env (preparedWorker env) @
         [AfterImport, Finished True])"
proof (cases "plugin_beforeImport env")
  case False
  then show ?thesis using setup_failed by (simp add: run_def)
next
  case before: True
  show ?thesis
  proof (cases "plugin_getColumns env = []")
    case True
    then show ?thesis using before no_columns
      by (simp add: run_def Let_def pluginWorker_def readPluginColumns_def new_worker_def)
  next
    case cols: False
    show ?thesis
    proof (cases "skipTransaction (config env) \<or> db_begin env")
      case False
      then show ?thesis using before cols begin_failed columnsFromPlugin_pluginWorker [of env]
        by (simp add: run_def Let_def pluginWorker_def)
    next
      case began: True
      note unf = run_unfold [OF before cols began]
      obtain ok w' evp where p: "prepareTable env (pluginWorker env) = (ok, w', evp)"
        by (cases "prepareTable env (pluginWorker env)")
      then have w': "w' = preparedWorker env" by (simp add: preparedWorker_def)
      show ?thesis
      proof (cases ok)
        case False
        with prepareTable_shape [OF p, of "ignoreErrors (config env)"] obtain b f msg where
          "evp = b @ f # error msg" "list_all (passed_event (ignoreErrors (config env))) b"
          "body_event f" "cause (ignoreErrors (config env)) f = Some msg"
          unfolding fails_with_def by auto
        then show ?thesis using body_failed [of b f msg] before cols began unf p False w'
          by simp
      next
        case pok: True
        with prepareTable_shape [OF p, of "ignoreErrors (config env)"]
        have bp: "list_all (passed_event (ignoreErrors (config env))) evp" by simp
        obtain ok' evi where i: "importData env w' = (ok', evi)"
          by (cases "importData env w'")
        show ?thesis
        proof (cases ok')
          case False
          with importData_shape [OF i] obtain b f msg where
            "evi = b @ f # error msg" "list_all (passed_event (ignoreErrors (config env))) b"
            "body_event f" "cause (ignoreErrors (config env)) f = Some msg"
            unfolding fails_with_def by auto
          then show ?thesis
            using body_failed [of "evp @ b" f msg] before cols began unf p pok i False bp w'
            by simp
        next
          case iok: True
          with importData_shape [OF i]
          have bi: "list_all (passed_event (ignoreErrors (config env))) evi" by simp
          show ?thesis
          proof (cases "skipTransaction (config env) \<or> db_commit env")
            case True
            then show ?thesis
              using success [of "evp @ evi"] before cols began unf p pok i iok bp bi w'
              by auto
          next
            case False
            then show ?thesis
              using commit_failed [of "evp @ evi"] before cols began unf p pok i iok bp bi w'
              by auto
          qed
        qed
      qed
    qed
  qed
qed

lemma afterImports_simps [simp]:
  "afterImports [] = 0"
  "afterImports (e # evs) = (if e = AfterImport then 1 else 0) + afterImports evs"
  "afterImports (xs @ ys) = afterImports xs + afterImports ys"
  by (simp_all add: afterImports_def)

lemma finishes_simps [simp]:
  "finishes [] = 0"
  "finishes (e # evs) = (if is_Finished e then 1 else 0) + finishes evs"
  "finishes (xs @ ys) = finishes xs + finishes ys"
  by (simp_all add: finishes_def)

lemma body_afterImports: "list_all body_event b \<Longrightarrow> afterImports b = 0"
  by (induction b) auto

lemma body_finishes: "list_all body_event b \<Longrightarrow> finishes b = 0"
  by (induction b) (auto elim: body_event.elims)

lemma passed_body: "list_all (passed_event ign) b \<Longrightarrow> list_all body_event b"
  by (induction b) (auto simp: passed_event_def)

lemma body_event_not [simp]:
  "body_event e \<Longrightarrow> e \<noteq> AfterImport"
  "body_event e \<Longrightarrow> \<not> is_Finished e"
  by (cases e; simp)+

lemma apply_body:
  "list_all body_event b \<Longrightarrow>
   foldl effect d b =
     (if inTransaction d then d\<lparr>pending := pending d @ applied b\<rparr>
      else d\<lparr>durable := durable d @ applied b\<rparr>)"
proof (induction b arbitrary: d)
  case Nil
  then show ?case by (simp add: applied_def)
next
  case (Cons e b)
  then have e: "body_event e" and b: "list_all body_event b" by simp_all
  show ?case
    using e Cons.IH [OF b, of "effect d e"]
    by (cases e rule: succeeded.cases)
       (simp_all add: applied_def apply_statement_def)
qed

lemma applied_simps [simp]:
  "applied [] = []"
  "applied (e # evs) = succeeded e @ applied evs"
  "applied (xs @ ys) = applied xs @ applied ys"
  by (simp_all add: applied_def)

lemma database_after_transaction:
  "list_all body_event b \<Longrightarrow>
   foldl effect empty_database ([BeforeImport True, GetColumns, Begin True] @ b) =
     \<lparr>durable = [], pending = applied b, inTransaction = True\<rparr>"
  by (simp add: apply_body empty_database_def)

lemma body_no_control:
  "list_all body_event b \<Longrightarrow>
     Commit c \<notin> set b \<and> Rollback \<notin> set b \<and> Begin c \<notin> set b \<and> Finished c \<notin> set b \<and>
     AfterImport \<notin> set b \<and> NotifyError m \<notin> set b \<and> CreatedTable t \<notin> set b"
  by (induction b) auto

lemma passed_no_cause:
  "list_all (passed_event ign) b \<Longrightarrow> e \<in> set b \<Longrightarrow> cause ign e = None"
  by (induction b) (auto simp: passed_event_def)

lemma importLoop_no_Exec: "Exec sql f r \<notin> set (snd (importLoop env c k rows))"
  by (induction rows arbitrary: k)
     (auto simp: Let_def error_def case_prod_unfold split: option.splits)

lemma importData_no_Exec: "Exec sql f r \<notin> set (snd (importData env w))"
  using importLoop_no_Exec [of sql f r env "length (targetColumns w)" 0 "plugin_rows env"]
  by (simp add: importData_def Let_def case_prod_unfold)

lemma prepareTable_existing:
  assumes "getTableColumns env \<noteq> []"
  shows "prepareTable env w =
    (\<not> interrupted_after_prepare env,
     (if interrupted_after_prepare env then w\<lparr>tableColumns := getTableColumns env\<rparr>
      else w\<lparr>tableColumns := getTableColumns env,
             targetColumns := map (wrapObjIfNeeded env)
               (take (length (columnsFromPlugin w)) (getTableColumns env))\<rparr>),
     GetTableColumns #
     (if length (getTableColumns env) < length (columnsFromPlugin w)
      then [NotifyWarn (lessColumnsMessage (table env))]
      else if length (getTableColumns env) > length (columnsFromPlugin w)
      then [NotifyInfo (moreColumnsMessage (table env))] else []) @
     IsInterrupted (interrupted_after_prepare env) #
     (if interrupted_after_prepare env then error interruptedMessage else []))"
  using assms by (simp add: prepareTable_def Let_def finishPrepare_cases)

lemma prepareTable_missing:
  assumes "getTableColumns env = []"
  shows "prepareTable env w =
    (case db_exec env (ddl env w) (createFlags env) of
       Some e \<Rightarrow> (False, w\<lparr>tableColumns := []\<rparr>,
          [GetTableColumns, Exec (ddl env w) (createFlags env) (Some e)] @
          error (createTableMessage e))
     | None \<Rightarrow>
        (\<not> interrupted_after_prepare env,
         (if interrupted_after_prepare env then w\<lparr>tableColumns := [], tableCreated := True\<rparr>
          else w\<lparr>tableColumns := [], tableCreated := True,
                 targetColumns := map (wrapObjIfNeeded env) (columnsFromPlugin w)\<rparr>),
         [GetTableColumns, Exec (ddl env w) (createFlags env) None,
          IsInterrupted (interrupted_after_prepare env)] @
         (if interrupted_after_prepare env then error interruptedMessage else [])))"
proof -
  have "ddl env (w\<lparr>tableColumns := []\<rparr>) = ddl env w"
    by (simp add: ddl_def colDefs_def)
  with assms show ?thesis
    by (simp add: prepareTable_def Let_def finishPrepare_cases split: option.splits)
qed

lemma run_body_events:
  assumes "e \<in> set (snd (run env))" "body_event e"
  shows "e \<in> set (snd (snd (prepareTable env (pluginWorker env)))) \<or>
         e \<in> set (snd (importData env (preparedWorker env)))"
proof (cases "plugin_beforeImport env \<and> plugin_getColumns env \<noteq> [] \<and>
    (skipTransaction (config env) \<or> db_begin env)")
  case True
  then have unf: "run env = (case prepareTable env (pluginWorker env) of
       (False, w', evp) \<Rightarrow>
         (w', [BeforeImport True, GetColumns] @ beginEvents env @ evp @ rollbackUnlessSkipped env)
     | (True, w', evp) \<Rightarrow>
         (case importData env w' of
            (False, evi) \<Rightarrow>
              (w', [BeforeImport True, GetColumns] @ beginEvents env @ (evp @ evi) @
                   rollbackUnlessSkipped env)
          | (True, evi) \<Rightarrow>
              if \<not> skipTransaction (config env) \<and> \<not> db_commit env then
                (w', [BeforeImport True, GetColumns] @ beginEvents env @ (evp @ evi) @
                     [Commit False] @ error (commitMessage (db_getErrorText env)) @ [Rollback])
              else
                (w', [BeforeImport True, GetColumns] @ beginEvents env @ (evp @ evi) @
                     commitEvents env @ createdEvents env w' @ [AfterImport, Finished True])))"
    using run_unfold by blast
  show ?thesis
    using assms
    unfolding unf preparedWorker_def
    by (auto simp: beginEvents_def commitEvents_def createdEvents_def rollbackUnlessSkipped_def
        error_def split: prod.splits bool.splits if_splits)
next
  case False
  then show ?thesis using assms
    by (cases env rule: run_cases) (auto simp: error_def)
qed

lemma tableCreated_pluginWorker [simp]: "\<not> tableCreated (pluginWorker env)"
  by (simp add: pluginWorker_def readPluginColumns_def new_worker_def)

lemma preparedWorker_existing:
  assumes "getTableColumns env \<noteq> []"
  shows "\<not> tableCreated (preparedWorker env)"
    and "tableColumns (preparedWorker env) = getTableColumns env"
    and "\<not> interrupted_after_prepare env \<Longrightarrow> targetColumns (preparedWorker env) =
       map (wrapObjIfNeeded env) (take (length (plugin_getColumns env)) (getTableColumns env))"
    and "Exec sql f r \<notin> set (snd (snd (prepareTable env (pluginWorker env))))"
  using assms
  by (simp_all add: preparedWorker_def prepareTable_existing columnsFromPlugin_pluginWorker
      error_def)

lemma notices_simps [simp]:
  "notices [] = []"
  "notices (e # evs) = (if is_notice e then [e] else []) @ notices evs"
  "notices (xs @ ys) = notices xs @ notices ys"
  by (simp_all add: notices_def)

subsection \<open>The loop of importData\<close>

lemma importLoop_pass:
  "passes env c k row \<Longrightarrow>
   importLoop env c k (row # rest) =
     (fst (importLoop env c (Suc k) rest),
      rowEvents env c k row @ snd (importLoop env c (Suc k) rest))"
  by (auto simp: passes_def rowEvents_def Let_def case_prod_unfold split: option.splits)

lemma importLoop_append:
  "all_pass env c k pre \<Longrightarrow>
   importLoop env c k (pre @ rest) =
     (fst (importLoop env c (k + length pre) rest),
      passEvents env c k pre @ snd (importLoop env c (k + length pre) rest))"
proof (induction pre arbitrary: k)
  case Nil
  then show ?case by simp
next
  case (Cons row pre)
  then have p: "passes env c k row" and a: "all_pass env c (Suc k) pre" by simp_all
  show ?case
    using importLoop_pass [OF p, of "pre @ rest"] Cons.IH [OF a]
    by simp
qed

lemma importLoop_all_pass:
  "all_pass env c k rows \<Longrightarrow> importLoop env c k rows = (True, passEvents env c k rows @ [Next []])"
  using importLoop_append [of env c k rows "[]"] by simp

lemma all_pass_nth:
  "all_pass env c k rows \<longleftrightarrow> (\<forall>i < length rows. passes env c (k + i) (rows ! i))"
proof (induction rows arbitrary: k)
  case Nil
  then show ?case by simp
next
  case (Cons row rows)
  show ?case
    by (simp add: Cons.IH All_less_Suc2)
qed

lemma importLoop_empty_row:
  "importLoop env c k (pre @ [] # post) = importLoop env c k pre"
  by (induction pre arbitrary: k) (simp_all add: Let_def)

lemma executes_simps [simp]:
  "executes [] = 0"
  "executes (e # evs) = (if is_Execute e then 1 else 0) + executes evs"
  "executes (xs @ ys) = executes xs + executes ys"
  by (simp_all add: executes_def)

lemma nexts_simps [simp]:
  "nexts [] = 0"
  "nexts (e # evs) = (if is_Next e then 1 else 0) + nexts evs"
  "nexts (xs @ ys) = nexts xs + nexts ys"
  by (simp_all add: nexts_def)

lemma warnings_simps [simp]:
  "warnings [] = []"
  "warnings (e # evs) = warning e @ warnings evs"
  "warnings (xs @ ys) = warnings xs @ warnings ys"
  by (simp_all add: warnings_def)

lemma passEvents_counts:
  "executes (passEvents env c k rows) = length rows"
  "nexts (passEvents env c k rows) = length rows"
  by (induction rows arbitrary: k) (simp_all add: rowEvents_def split: option.splits)

lemma run_reached:
  assumes "plugin_beforeImport env" "plugin_getColumns env \<noteq> []"
    "skipTransaction (config env) \<or> db_begin env"
    "fst (prepareTable env (pluginWorker env))"
  shows "run env =
    (preparedWorker env,
     [BeforeImport True, GetColumns] @ beginEvents env @
     snd (snd (prepareTable env (pluginWorker env))) @
     snd (importData env (preparedWorker env)) @
     (if \<not> fst (importData env (preparedWorker env)) then rollbackUnlessSkipped env
      else if \<not> skipTransaction (config env) \<and> \<not> db_commit env then
        [Commit False] @ error (commitMessage (db_getErrorText env)) @ [Rollback]
      else commitEvents env @ createdEvents env (preparedWorker env) @
        [AfterImport, Finished True]))"
proof -
  obtain w' evp where p: "prepareTable env (pluginWorker env) = (True, w', evp)"
    using assms(4) by (cases "prepareTable env (pluginWorker env)") auto
  obtain ok evi where i: "importData env w' = (ok, evi)"
    by (cases "importData env w'")
  show ?thesis
    using run_unfold [OF assms(1-3)] p i
    by (cases ok) (simp_all add: preparedWorker_def)
qed

lemma importData_all_pass:
  "all_pass env (length (targetColumns w)) 0 (plugin_rows env) \<Longrightarrow>
   importData env w =
     (True, Prepare (theInsert env (length (targetColumns w))) #
            passEvents env (length (targetColumns w)) 0 (plugin_rows env) @ [Next []])"
  by (simp add: importData_def Let_def importLoop_all_pass)

lemma importData_prefix:
  "plugin_rows env = pre @ rest \<Longrightarrow> all_pass env (length (targetColumns w)) 0 pre \<Longrightarrow>
   importData env w =
     (fst (importLoop env (length (targetColumns w)) (length pre) rest),
      Prepare (theInsert env (length (targetColumns w))) #
      passEvents env (length (targetColumns w)) 0 pre @
      snd (importLoop env (length (targetColumns w)) (length pre) rest))"
  by (simp add: importData_def Let_def importLoop_append case_prod_unfold)

lemma body_passEvents: "list_all body_event (passEvents env c k rows)"
  by (induction rows arbitrary: k) (simp_all add: rowEvents_def split: option.splits)

lemma prepare_ok_body:
  assumes "fst (prepareTable env w)"
  shows "list_all body_event (snd (snd (prepareTable env w)))"
proof -
  have "prepareTable env w =
      (True, fst (snd (prepareTable env w)), snd (snd (prepareTable env w)))"
    using assms by (simp add: prod_eq_iff)
  from prepareTable_shape [OF this, of False] show ?thesis
    by (simp add: passed_body)
qed

lemma prepare_counts:
  "executes (snd (snd (prepareTable env w))) = 0"
  "nexts (snd (snd (prepareTable env w))) = 0"
  by (cases "getTableColumns env = []";
      simp add: prepareTable_existing prepareTable_missing error_def split: option.splits)+

lemma database_after_rolled_back:
  "list_all body_event b \<Longrightarrow>
   database_after ([BeforeImport True, GetColumns, Begin True] @ b @ error msg @ [Rollback]) =
     \<lparr>durable = [], pending = [], inTransaction = False\<rparr>"
  using database_after_transaction [of b]
  by (simp add: database_after_def error_def)




lemma upt_0_Suc_shift: "[0 ..< Suc n] = 0 # map Suc [0 ..< n]"
  by (simp add: upt_conv_Cons map_Suc_upt del: upt_Suc)

lemma passEvents_warnings:
  "warnings (passEvents env c k rows) =
     map (\<lambda>i. rowIgnoredMessage (k + i + 1) (the (query_execute env (k + i) (bindArgs c (rows ! i)))))
       (filter (\<lambda>i. query_execute env (k + i) (bindArgs c (rows ! i)) \<noteq> None) [0 ..< length rows])"
proof (induction rows arbitrary: k)
  case Nil
  then show ?case by simp
next
  case (Cons row rows)
  show ?case
    by (simp add: Cons.IH rowEvents_def upt_0_Suc_shift filter_map comp_def
        del: upt_Suc split: option.splits)
qed



lemma passEvents_no_error: "NotifyError m \<notin> set (passEvents env c k rows)"
  by (induction rows arbitrary: k) (simp_all add: rowEvents_def split: option.splits)

lemma prepare_ok_no_error:
  assumes "fst (prepareTable env w)"
  shows "NotifyError m \<notin> set (snd (snd (prepareTable env w)))"
  using body_no_control [OF prepare_ok_body [OF assms]] by blast

lemma importData_empty_row:
  "importData (env\<lparr>plugin_rows := pre @ [] # post\<rparr>) w = importData (env\<lparr>plugin_rows := pre\<rparr>) w"
proof -
  have "importLoop (env\<lparr>plugin_rows := pre @ [] # post\<rparr>) c k rows =
        importLoop (env\<lparr>plugin_rows := pre\<rparr>) c k rows" for c k rows
    by (induction rows arbitrary: k) (simp_all add: Let_def)
  then show ?thesis
    by (simp add: importData_def Let_def theInsert_def importLoop_empty_row)
qed

lemma rows_update_simps [simp]:
  "ddl (env\<lparr>plugin_rows := rows\<rparr>) w = ddl env w"
  "createFlags (env\<lparr>plugin_rows := rows\<rparr>) = createFlags env"
  "finishPrepare (env\<lparr>plugin_rows := rows\<rparr>) w fc = finishPrepare env w fc"
  "readPluginColumns (env\<lparr>plugin_rows := rows\<rparr>) w = readPluginColumns env w"
  "rollbackUnlessSkipped (env\<lparr>plugin_rows := rows\<rparr>) = rollbackUnlessSkipped env"
  by (simp_all add: ddl_def colDefs_def createFlags_def finishPrepare_def readPluginColumns_def
      rollbackUnlessSkipped_def)

lemma prepareTable_rows [simp]:
  "prepareTable (env\<lparr>plugin_rows := rows\<rparr>) w = prepareTable env w"
  by (cases "getTableColumns env = []")
     (simp_all add: prepareTable_existing prepareTable_missing split: option.splits)

lemma run_rows_cong:
  assumes "\<And>w. importData (env\<lparr>plugin_rows := r1\<rparr>) w = importData (env\<lparr>plugin_rows := r2\<rparr>) w"
  shows "run (env\<lparr>plugin_rows := r1\<rparr>) = run (env\<lparr>plugin_rows := r2\<rparr>)"
  by (simp add: run_def Let_def assms split: prod.splits bool.splits)


lemma tableCreated_run:
  "tableCreated (fst (run env)) \<Longrightarrow> fst (run env) = preparedWorker env"
  by (cases env rule: run_cases) (simp_all add: new_worker_def)

lemma run_finished_True:
  assumes "Finished True \<in> set (snd (run env))"
  obtains b where "plugin_beforeImport env" "plugin_getColumns env \<noteq> []"
      "skipTransaction (config env) \<or> db_begin env"
      "skipTransaction (config env) \<or> db_commit env"
      "list_all (passed_event (ignoreErrors (config env))) b"
      "run env = (preparedWorker env, [BeforeImport True, GetColumns] @ beginEvents env @
         b @ commitEvents env @ createdEvents env (preparedWorker env) @
         [AfterImport, Finished True])"
proof (cases env rule: run_cases)
  case setup_failed
  then show ?thesis using assms by simp
next
  case no_columns
  then show ?thesis using assms by (simp add: error_def)
next
  case begin_failed
  then show ?thesis using assms by (simp add: error_def)
next
  case (body_failed b f msg)
  from body_failed(5) have "f \<noteq> Finished True" by auto
  then show ?thesis
    using assms body_failed body_no_control [OF passed_body [OF body_failed(4)], of True]
    by (auto simp: error_def beginEvents_def rollbackUnlessSkipped_def split: if_splits)
next
  case (commit_failed b)
  then show ?thesis
    using assms body_no_control [OF passed_body [OF commit_failed(6)], of True]
    by (auto simp: error_def beginEvents_def split: if_splits)
next
  case (success b)
  then show ?thesis using that by blast
qed

subsection \<open>Where the flag is read\<close>

lemma hundred_Suc: "k mod 100 = 0 \<Longrightarrow> Suc k mod 100 = 1"
  by (simp add: mod_Suc)




lemma poll_positions_append:
  "poll_positions n (xs @ ys) = poll_positions n xs @ poll_positions (n + executes xs) ys"
proof (induction xs arbitrary: n)
  case Nil
  then show ?case by simp
next
  case (Cons e xs)
  show ?case by (cases e) (simp_all add: Cons.IH)
qed

lemma poll_positions_error [simp]: "poll_positions n (error msg) = []"
  by (simp add: error_def)

lemma importLoop_polls_mod:
  "p \<in> set (poll_positions k (snd (importLoop env c k rows))) \<Longrightarrow> p mod 100 = 1"
proof (induction rows arbitrary: k)
  case Nil
  then show ?case by simp
next
  case (Cons row rows)
  have step: "k mod 100 = 0 \<Longrightarrow> Suc k mod 100 = 1" by (rule hundred_Suc)
  show ?case
    using Cons.prems Cons.IH [of "Suc k"] step
    by (auto simp: Let_def case_prod_unfold split: option.splits if_splits)
qed


lemma importData_polls:
  "poll_positions 0 (snd (importData env w)) =
     poll_positions 0 (snd (importLoop env (length (targetColumns w)) 0 (plugin_rows env)))"
  by (simp add: importData_def Let_def case_prod_unfold)


lemma passEvents_polls:
  "poll_positions k (passEvents env c k rows) =
     map Suc (filter (\<lambda>i. i mod 100 = 0) [k ..< k + length rows])"
proof (induction rows arbitrary: k)
  case Nil
  then show ?case by simp
next
  case (Cons row rows)
  have "[k ..< k + length (row # rows)] = k # [Suc k ..< Suc k + length rows]"
    by (simp add: upt_conv_Cons del: upt_Suc)
  then show ?case
    using Cons.IH [of "Suc k"]
    by (simp add: rowEvents_def del: upt_Suc split: option.splits)
qed

lemma prepare_polls:
  "poll_positions n (snd (snd (prepareTable env w))) = [] \<or>
   poll_positions n (snd (snd (prepareTable env w))) = [n]"
  "fst (prepareTable env w) \<Longrightarrow> poll_positions n (snd (snd (prepareTable env w))) = [n]"
  by (cases "getTableColumns env = []";
      simp add: prepareTable_existing prepareTable_missing split: option.splits)+


subsection \<open>The example runs, evaluated\<close>

lemma run_example:
  "run example_env =
  (\<lparr>columnsFromPlugin = [''name'', ''age''],
     columnTypesFromPlugin = [''TEXT'', ''INTEGER''], tableColumns = [],
     targetColumns = [''name'', ''age''], tableCreated = True\<rparr>,
  [BeforeImport True, GetColumns, Begin True, GetTableColumns,
   Exec ''CREATE TABLE people (name TEXT, age INTEGER)'' NONE None,
   IsInterrupted False, Prepare ''INSERT INTO people VALUES (?, ?)'',
   Next [Text ''ann'', Number 31], Execute [Text ''ann'', Number 31] None,
   IsInterrupted False, Next [Text ''bob''],
   Execute [Text ''bob'', NullString] (Some ''NOT NULL constraint failed''),
   NotifyWarn ''Could not import data row number 2. The row was ignored. Problem details: NOT NULL constraint failed'',
   Next [Text ''cy'', Number 7, Number 9],
   Execute [Text ''cy'', Number 7] None, Next [], Commit True,
   CreatedTable ''people'', AfterImport, Finished True])"
  by code_simp

lemma run_setup_fails:
  "run (example_env\<lparr>plugin_beforeImport := False\<rparr>) =
     (new_worker, [BeforeImport False, Finished False])"
  by (simp add: run_def)


lemma example_strict_prepared:
  "fst (prepareTable example_strict_env (pluginWorker example_strict_env))"
  "length (targetColumns (preparedWorker example_strict_env)) = 2"
  by code_simp+

lemma example_interrupted_prepared:
  "fst (prepareTable example_interrupted_env (pluginWorker example_interrupted_env))"
  "length (targetColumns (preparedWorker example_interrupted_env)) = 2"
  by code_simp+

lemma example_empty_row_prepared:
  "fst (prepareTable example_empty_row_env (pluginWorker example_empty_row_env))"
  "length (targetColumns (preparedWorker example_empty_row_env)) = 2"
  by code_simp+


lemma run_example_existing:
  "fst (run example_existing_env) =
     \<lparr>columnsFromPlugin = [''name'', ''age''],
      columnTypesFromPlugin = [''TEXT'', ''INTEGER''],
      tableColumns = [''name'', ''age'', ''city''], targetColumns = [''name'', ''age''],
      tableCreated = False\<rparr>"
  by code_simp


subsection \<open>C1: schema reconciliation\<close>



subsection \<open>C2: transactional atomicity\<close>

text \<open>
  C2. In a run with \<open>skipTransaction = false\<close> nothing is left pending, and either the
  run succeeds, the commit has succeeded, no rollback was issued and every statement that
  succeeded (the CREATE TABLE and every inserted row) is durable, or the run fails and
  nothing is durable; in a failed run in which the transaction was begun the last thing
  the worker does is the rollback. In particular a failed CREATE TABLE, a failed row with
  \<open>ignoreErrors = false\<close>, the flag read as set and a failed commit each end in a failed
  run whose last action is the rollback, and a failed commit is reported with the
  "could not commit" error.
\<close>

theorem transactional_atomicity:
  assumes tx: "\<not> skipTransaction (config env)"
  shows "pending (database_after (snd (run env))) = [] \<and>
    (if Finished True \<in> set (snd (run env))
     then durable (database_after (snd (run env))) = applied (snd (run env)) \<and>
          Commit True \<in> set (snd (run env)) \<and> Rollback \<notin> set (snd (run env))
     else durable (database_after (snd (run env))) = [] \<and>
          Commit True \<notin> set (snd (run env)) \<and>
          (Begin True \<in> set (snd (run env)) \<longrightarrow> last (snd (run env)) = Rollback)) \<and>
    (\<forall>e \<in> set (snd (run env)).
        (\<exists>sql f t. e = Exec sql f (Some t)) \<or>
        (\<exists>args t. e = Execute args (Some t) \<and> \<not> ignoreErrors (config env)) \<or>
        e = IsInterrupted True \<or> e = Commit False \<longrightarrow>
        Finished False \<in> set (snd (run env)) \<and> last (snd (run env)) = Rollback) \<and>
    (Commit False \<in> set (snd (run env)) \<longrightarrow>
        NotifyError (commitMessage (db_getErrorText env)) \<in> set (snd (run env)))"
proof (cases env rule: run_cases)
  case setup_failed
  then show ?thesis
    by (simp add: database_after_def empty_database_def)
next
  case no_columns
  then show ?thesis
    by (simp add: database_after_def empty_database_def error_def)
next
  case begin_failed
  then show ?thesis
    by (simp add: database_after_def empty_database_def error_def)
next
  case (body_failed b f msg)
  note bb = passed_body [OF body_failed(4)]
  have db: "database_after (snd (run env)) = \<lparr>durable = [], pending = [], inTransaction = False\<rparr>"
    using body_failed tx bb database_after_transaction [of "b @ [f]"]
    by (simp add: database_after_def beginEvents_def rollbackUnlessSkipped_def error_def)
  show ?thesis
    using body_failed tx db body_no_control [OF bb]
    by (auto simp: beginEvents_def rollbackUnlessSkipped_def error_def)
next
  case (commit_failed b)
  note bb = passed_body [OF commit_failed(6)]
  have db: "database_after (snd (run env)) = \<lparr>durable = [], pending = [], inTransaction = False\<rparr>"
    using commit_failed tx bb database_after_transaction [of b]
    by (simp add: database_after_def beginEvents_def error_def)
  show ?thesis
    using commit_failed tx db body_no_control [OF bb]
    by (auto simp: beginEvents_def error_def)
next
  case (success b)
  note bb = passed_body [OF success(5)]
  have db: "database_after (snd (run env)) =
      \<lparr>durable = applied b, pending = [], inTransaction = False\<rparr>"
    using success tx bb database_after_transaction [of b]
    by (simp add: database_after_def beginEvents_def commitEvents_def createdEvents_def)
  have ap: "applied (snd (run env)) = applied b"
    using success tx by (simp add: beginEvents_def commitEvents_def createdEvents_def)
  show ?thesis
    using success tx db ap body_no_control [OF bb] passed_no_cause [OF success(5)]
    by (fastforce simp: beginEvents_def commitEvents_def createdEvents_def)
qed

theorem transactional_atomicity_witness:
  "\<not> skipTransaction (config example_env) \<and>
   Finished True \<in> set (snd (run example_env)) \<and>
   pending (database_after (snd (run example_env))) = [] \<and>
   durable (database_after (snd (run example_env))) =
     [CreateTable ''CREATE TABLE people (name TEXT, age INTEGER)'',
      InsertRow [Text ''ann'', Number 31], InsertRow [Text ''cy'', Number 7]]"
proof -
  have h: "\<not> skipTransaction (config example_env)"
    by (simp add: example_env_def)
  have f: "Finished True \<in> set (snd (run example_env))"
    by (simp add: run_example)
  have a: "applied (snd (run example_env)) =
     [CreateTable ''CREATE TABLE people (name TEXT, age INTEGER)'',
      InsertRow [Text ''ann'', Number 31], InsertRow [Text ''cy'', Number 7]]"
    by (simp add: run_example)
  from transactional_atomicity [OF h] h f a show ?thesis by simp
qed

subsection \<open>C3: the after-import hook and the finished signal\<close>

text \<open>
  C3, as stated, asks for exactly one call of the plugin's after-import hook on every
  path, also when \<open>beforeImport\<close> returns false. On that path the worker emits
  \<open>finished(false)\<close> and returns without calling the hook:
\<close>

theorem hook_skipped_when_setup_fails:
  "afterImports (snd (run (example_env\<lparr>plugin_beforeImport := False\<rparr>))) = 0 \<and>
   \<not> (afterImports (snd (run (example_env\<lparr>plugin_beforeImport := False\<rparr>))) = 1 \<and>
      finishes (snd (run (example_env\<lparr>plugin_beforeImport := False\<rparr>))) = 1)"
  by (simp add: run_setup_fails)

text \<open>
  C3, amended. Every run emits exactly one \<open>finished\<close> signal. The after-import hook
  is called exactly once in every run in which \<open>beforeImport\<close> returned true (success,
  any fatal error, cancellation), and not at all when \<open>beforeImport\<close> returned false.
\<close>

theorem hooks_and_signals:
  "afterImports (snd (run env)) = (if plugin_beforeImport env then 1 else 0) \<and>
   finishes (snd (run env)) = 1"
proof (cases env rule: run_cases)
  case setup_failed
  then show ?thesis by simp
next
  case no_columns
  then show ?thesis by (simp add: error_def)
next
  case begin_failed
  then show ?thesis by (simp add: error_def)
next
  case (body_failed b f msg)
  then show ?thesis
    by (simp add: error_def beginEvents_def rollbackUnlessSkipped_def
        body_afterImports body_finishes passed_body)
next
  case (commit_failed b)
  then show ?thesis
    by (simp add: error_def beginEvents_def body_afterImports body_finishes passed_body)
next
  case (success b)
  then show ?thesis
    by (simp add: beginEvents_def commitEvents_def createdEvents_def
        body_afterImports body_finishes passed_body)
qed

theorem hooks_and_signals_witness:
  "plugin_beforeImport example_env \<and>
   afterImports (snd (run example_env)) = 1 \<and> finishes (snd (run example_env)) = 1"
proof -
  have h: "plugin_beforeImport example_env" by (simp add: example_env_def)
  from hooks_and_signals [of example_env] h show ?thesis by simp
qed

subsection \<open>C4: the first failed row, errors not ignored\<close>

text \<open>
  C4. Let the run reach the insertion (setup succeeded, the source has columns, the
  transaction was begun or skipped, \<open>prepareTable\<close> returned true) with
  \<open>ignoreErrors = false\<close>, and let the rows be \<open>pre @ row # post\<close>, where the rows of
  \<open>pre\<close> are not empty, execute without error and the flag is not read as set after
  any of them, and \<open>row\<close> is the first row whose statement fails, with error text \<open>e\<close>.
  Then the trace ends with the fetch of \<open>row\<close>, its failed statement, the error
  notification "Error while importing data: e", the after-import hook and
  \<open>finished(false)\<close>, followed by the rollback when the run is transactional. No row
  of \<open>post\<close> is fetched or executed: the run fetched and executed \<open>|pre| + 1\<close> rows.
  In a transactional run nothing is durable or pending afterwards.
\<close>

theorem first_failed_row_aborts:
  assumes reach: "plugin_beforeImport env" "plugin_getColumns env \<noteq> []"
      "skipTransaction (config env) \<or> db_begin env"
      "fst (prepareTable env (pluginWorker env))"
    and strict: "\<not> ignoreErrors (config env)"
    and rows: "plugin_rows env = pre @ row # post"
    and pre: "\<forall>i < length pre. pre ! i \<noteq> [] \<and>
        query_execute env i (bindArgs (length (targetColumns (preparedWorker env))) (pre ! i)) = None \<and>
        (i mod 100 = 0 \<longrightarrow> \<not> interrupted_at_row env i)"
    and row: "row \<noteq> []"
      "query_execute env (length pre)
         (bindArgs (length (targetColumns (preparedWorker env))) row) = Some e"
  shows "(\<exists>before. snd (run env) =
            before @ [Next row,
                      Execute (bindArgs (length (targetColumns (preparedWorker env))) row) (Some e),
                      NotifyError (''Error while importing data: '' @ e),
                      AfterImport, Finished False] @
            (if skipTransaction (config env) then [] else [Rollback])) \<and>
         nexts (snd (run env)) = length pre + 1 \<and>
         executes (snd (run env)) = length pre + 1 \<and>
         (\<not> skipTransaction (config env) \<longrightarrow>
            durable (database_after (snd (run env))) = [] \<and>
            pending (database_after (snd (run env))) = [])"
proof -
  let ?c = "length (targetColumns (preparedWorker env))"
  let ?evp = "snd (snd (prepareTable env (pluginWorker env)))"
  have ap: "all_pass env ?c 0 pre"
    using pre by (auto simp: all_pass_nth passes_def)
  have loop: "importLoop env ?c (length pre) (row # post) =
      (False, [Next row, Execute (bindArgs ?c row) (Some e)] @ error (rowErrorMessage e))"
    using row strict by (simp add: Let_def)
  have imp: "importData env (preparedWorker env) =
      (False, Prepare (theInsert env ?c) # passEvents env ?c 0 pre @
         [Next row, Execute (bindArgs ?c row) (Some e)] @ error (rowErrorMessage e))"
    using importData_prefix [OF rows ap] loop by simp
  let ?body = "?evp @ Prepare (theInsert env ?c) # passEvents env ?c 0 pre @
      [Next row, Execute (bindArgs ?c row) (Some e)]"
  have log: "snd (run env) = [BeforeImport True, GetColumns] @ beginEvents env @ ?body @
      error (rowErrorMessage e) @ rollbackUnlessSkipped env"
    using run_reached [OF reach] imp by simp
  have body: "list_all body_event ?body"
    using prepare_ok_body [OF reach(4)] by (simp add: body_passEvents)
  have 1: "\<exists>before. snd (run env) =
            before @ [Next row, Execute (bindArgs ?c row) (Some e),
                      NotifyError (''Error while importing data: '' @ e),
                      AfterImport, Finished False] @
            (if skipTransaction (config env) then [] else [Rollback])"
    unfolding log
    by (rule exI [of _ "[BeforeImport True, GetColumns] @ beginEvents env @ ?evp @
          Prepare (theInsert env ?c) # passEvents env ?c 0 pre"])
       (simp add: error_def rowErrorMessage_def rollbackUnlessSkipped_def)
  have 2: "nexts (snd (run env)) = length pre + 1" "executes (snd (run env)) = length pre + 1"
    unfolding log
    by (simp_all add: beginEvents_def prepare_counts passEvents_counts error_def
        rollbackUnlessSkipped_def)
  have 3: "durable (database_after (snd (run env))) = [] \<and>
           pending (database_after (snd (run env))) = []"
    if "\<not> skipTransaction (config env)"
    unfolding log using that database_after_rolled_back [OF body, of "rowErrorMessage e"]
    by (simp add: beginEvents_def rollbackUnlessSkipped_def)
  from 1 2 3 show ?thesis by blast
qed


theorem first_failed_row_aborts_witness:
  "\<not> ignoreErrors (config example_strict_env) \<and>
   \<not> skipTransaction (config example_strict_env) \<and>
   plugin_rows example_strict_env =
     [[Text ''ann'', Number 31]] @ [Text ''bob''] # [[Text ''cy'', Number 7, Number 9]] \<and>
   nexts (snd (run example_strict_env)) = 2 \<and>
   executes (snd (run example_strict_env)) = 2 \<and>
   durable (database_after (snd (run example_strict_env))) = [] \<and>
   pending (database_after (snd (run example_strict_env))) = []"
proof -
  have reach: "plugin_beforeImport example_strict_env"
      "plugin_getColumns example_strict_env \<noteq> []"
      "skipTransaction (config example_strict_env) \<or> db_begin example_strict_env"
    by (simp_all add: example_strict_env_def example_env_def)
  have strict: "\<not> ignoreErrors (config example_strict_env)"
    and tx: "\<not> skipTransaction (config example_strict_env)"
    and rows: "plugin_rows example_strict_env =
      [[Text ''ann'', Number 31]] @ [Text ''bob''] # [[Text ''cy'', Number 7, Number 9]]"
    by (simp_all add: example_strict_env_def example_env_def)
  have pre: "\<forall>i < length [[Text ''ann'', Number 31]]. [[Text ''ann'', Number 31]] ! i \<noteq> [] \<and>
      query_execute example_strict_env i
        (bindArgs (length (targetColumns (preparedWorker example_strict_env)))
           ([[Text ''ann'', Number 31]] ! i)) = None \<and>
      (i mod 100 = 0 \<longrightarrow> \<not> interrupted_at_row example_strict_env i)"
    by (simp add: example_strict_env_def example_env_def)
  have row: "[Text ''bob''] \<noteq> []"
    "query_execute example_strict_env (length [[Text ''ann'', Number 31]])
       (bindArgs (length (targetColumns (preparedWorker example_strict_env))) [Text ''bob'']) =
     Some ''NOT NULL constraint failed''"
    by (simp_all add: example_strict_env_def example_env_def)
  from first_failed_row_aborts [OF reach example_strict_prepared(1) strict rows pre row]
    strict tx rows
  show ?thesis by simp
qed

subsection \<open>C5: failed rows, errors ignored\<close>




subsection \<open>C6: the shape of a row\<close>




subsection \<open>C7: where cancellation is polled\<close>




subsection \<open>C8: the table-created notification\<close>

text \<open>
  C8. A run emits \<open>createdTable\<close> exactly when it ends in success with
  \<open>tableCreated\<close> set, for the table of the import, and then as the third event from
  the end, before the after-import hook and \<open>finished(true)\<close>, with no \<open>finished\<close>
  signal before it. A run (of a new worker) against a table that has columns leaves
  \<open>tableCreated\<close> false, executes no CREATE TABLE, emits no \<open>createdTable\<close>, and
  when it succeeds it has read the columns of the existing table and taken its column list
  from them (the first \<open>|S|\<close> of them, quoted as the dialect needs).
\<close>

theorem created_notification:
  "(CreatedTable t \<in> set (snd (run env)) \<longleftrightarrow>
      t = table env \<and> Finished True \<in> set (snd (run env)) \<and> tableCreated (fst (run env))) \<and>
   (CreatedTable t \<in> set (snd (run env)) \<longrightarrow>
      (\<exists>before. snd (run env) = before @ [CreatedTable t, AfterImport, Finished True] \<and>
         Finished True \<notin> set before \<and> Finished False \<notin> set before \<and>
         CreatedTable t \<notin> set before)) \<and>
   (getTableColumns env \<noteq> [] \<longrightarrow>
      \<not> tableCreated (fst (run env)) \<and>
      CreatedTable t \<notin> set (snd (run env)) \<and>
      (\<forall>sql f r. Exec sql f r \<notin> set (snd (run env))) \<and>
      (Finished True \<in> set (snd (run env)) \<longrightarrow>
         tableColumns (fst (run env)) = getTableColumns env \<and>
         targetColumns (fst (run env)) =
           map (wrapObjIfNeeded env)
             (take (length (plugin_getColumns env)) (getTableColumns env))))"
proof -
  have A: "(CreatedTable t \<in> set (snd (run env)) \<longleftrightarrow>
      t = table env \<and> Finished True \<in> set (snd (run env)) \<and> tableCreated (fst (run env))) \<and>
   (CreatedTable t \<in> set (snd (run env)) \<longrightarrow>
      (\<exists>before. snd (run env) = before @ [CreatedTable t, AfterImport, Finished True] \<and>
         Finished True \<notin> set before \<and> Finished False \<notin> set before \<and>
         CreatedTable t \<notin> set before))"
  proof (cases env rule: run_cases)
    case setup_failed
    then show ?thesis by simp
  next
    case no_columns
    then show ?thesis by (simp add: error_def)
  next
    case begin_failed
    then show ?thesis by (simp add: error_def)
  next
    case (body_failed b f msg)
    from body_failed(5) have "f \<noteq> CreatedTable t" "f \<noteq> Finished True" by auto
    then show ?thesis
      using body_failed body_no_control [OF passed_body [OF body_failed(4)]]
      by (simp add: error_def beginEvents_def rollbackUnlessSkipped_def)
  next
    case (commit_failed b)
    then show ?thesis
      using body_no_control [OF passed_body [OF commit_failed(6)]]
      by (simp add: error_def beginEvents_def)
  next
    case (success b)
    note nb = body_no_control [OF passed_body [OF success(5)]]
    show ?thesis
    proof (cases "tableCreated (preparedWorker env)")
      case False
      then show ?thesis
        using success nb by (simp add: beginEvents_def commitEvents_def createdEvents_def)
    next
      case True
      have log: "snd (run env) = ([BeforeImport True, GetColumns] @ beginEvents env @ b @
         commitEvents env) @ [CreatedTable (table env), AfterImport, Finished True]"
        using success True by (simp add: createdEvents_def)
      have pre: "Finished True \<notin> set ([BeforeImport True, GetColumns] @ beginEvents env @ b @
         commitEvents env) \<and> Finished False \<notin> set ([BeforeImport True, GetColumns] @
         beginEvents env @ b @ commitEvents env) \<and>
         CreatedTable t \<notin> set ([BeforeImport True, GetColumns] @ beginEvents env @ b @
         commitEvents env)"
        using nb by (simp add: beginEvents_def commitEvents_def)
      have 1: "CreatedTable t \<in> set (snd (run env)) \<longleftrightarrow> t = table env"
        unfolding log using pre by auto
      have 2: "Finished True \<in> set (snd (run env))" "tableCreated (fst (run env))"
        using success True by simp_all
      show ?thesis
        using 1 2 log pre by blast
    qed
  qed
  have B: "\<not> tableCreated (fst (run env)) \<and>
      CreatedTable t \<notin> set (snd (run env)) \<and>
      (\<forall>sql f r. Exec sql f r \<notin> set (snd (run env))) \<and>
      (Finished True \<in> set (snd (run env)) \<longrightarrow>
         tableColumns (fst (run env)) = getTableColumns env \<and>
         targetColumns (fst (run env)) =
           map (wrapObjIfNeeded env)
             (take (length (plugin_getColumns env)) (getTableColumns env)))"
    if ex: "getTableColumns env \<noteq> []"
  proof -
    have 1: "\<not> tableCreated (fst (run env))"
      using tableCreated_run [of env] preparedWorker_existing(1) [OF ex] by auto
    have 2: "CreatedTable t \<notin> set (snd (run env))"
      using A 1 by blast
    have 3: "Exec sql f r \<notin> set (snd (run env))" for sql f r
      using run_body_events [of "Exec sql f r" env] preparedWorker_existing(4) [OF ex]
        importData_no_Exec
      by auto
    have 4: "tableColumns (fst (run env)) = getTableColumns env \<and>
         targetColumns (fst (run env)) =
           map (wrapObjIfNeeded env)
             (take (length (plugin_getColumns env)) (getTableColumns env))"
      if fin: "Finished True \<in> set (snd (run env))"
    proof -
      from fin obtain b where success: "plugin_beforeImport env" "plugin_getColumns env \<noteq> []"
        "skipTransaction (config env) \<or> db_begin env"
        "skipTransaction (config env) \<or> db_commit env"
        "list_all (passed_event (ignoreErrors (config env))) b"
        "run env = (preparedWorker env, [BeforeImport True, GetColumns] @ beginEvents env @
           b @ commitEvents env @ createdEvents env (preparedWorker env) @
           [AfterImport, Finished True])"
        by (rule run_finished_True)
      have "IsInterrupted True \<notin> set (snd (run env))"
        using success body_no_control [OF passed_body [OF success(5)]]
          passed_no_cause [OF success(5), of "IsInterrupted True"]
        by (auto simp: beginEvents_def commitEvents_def createdEvents_def)
      moreover have "interrupted_after_prepare env \<Longrightarrow>
          IsInterrupted True \<in> set (snd (run env))"
        using success(1-3) run_unfold [OF success(1-3)] prepareTable_existing [OF ex]
        by (simp add: rollbackUnlessSkipped_def)
      ultimately have "\<not> interrupted_after_prepare env" by blast
      then show ?thesis
        using success preparedWorker_existing(2,3) [OF ex] by simp
    qed
    from 1 2 3 4 show ?thesis by blast
  qed
  from A B show ?thesis by blast
qed


theorem created_notification_witness:
  "CreatedTable ''people'' \<in> set (snd (run example_env)) \<and>
   tableCreated (fst (run example_env)) \<and>
   getTableColumns example_existing_env \<noteq> [] \<and>
   \<not> tableCreated (fst (run example_existing_env)) \<and>
   CreatedTable ''people'' \<notin> set (snd (run example_existing_env)) \<and>
   targetColumns (fst (run example_existing_env)) = [''name'', ''age'']"
proof -
  have c: "CreatedTable ''people'' \<in> set (snd (run example_env))"
    by (simp add: run_example)
  have d: "getTableColumns example_existing_env \<noteq> []"
    by (simp add: example_existing_env_def)
  from created_notification [of "''people''" example_env]
    created_notification [of "''people''" example_existing_env] c d
  show ?thesis by (simp add: run_example_existing)
qed

subsection \<open>C9: an empty row ends the stream\<close>

text \<open>
  C9. Let the run reach the insertion, let the rows the source returns be
  \<open>pre @ [] # post\<close>, where every row of \<open>pre\<close> is not empty, executes without error
  or has its error ignored, and the flag is not read as set after any of them, and let the
  commit succeed (or be skipped). Then the run is the run of the source that ends after
  \<open>pre\<close>: \<open>importData\<close> returns true and the last thing it does is fetch the empty
  row; \<open>|pre| + 1\<close> rows are fetched and \<open>|pre|\<close> executed, so no row of \<open>post\<close> is
  read and the empty row is not executed; no error is notified, the warnings are those of
  the failed rows of \<open>pre\<close>, a transactional run commits, and the run ends with
  \<open>finished(true)\<close>.
\<close>

theorem empty_row_ends_stream:
  assumes reach: "plugin_beforeImport env" "plugin_getColumns env \<noteq> []"
      "skipTransaction (config env) \<or> db_begin env"
      "fst (prepareTable env (pluginWorker env))"
    and rows: "plugin_rows env = pre @ [] # post"
    and pre: "\<forall>i < length pre. pre ! i \<noteq> [] \<and>
        (query_execute env i
           (bindArgs (length (targetColumns (preparedWorker env))) (pre ! i)) = None \<or>
         ignoreErrors (config env)) \<and>
        (i mod 100 = 0 \<longrightarrow> \<not> interrupted_at_row env i)"
    and commit: "skipTransaction (config env) \<or> db_commit env"
  shows "run env = run (env\<lparr>plugin_rows := pre\<rparr>) \<and>
     fst (importData env (preparedWorker env)) \<and>
     last (snd (importData env (preparedWorker env))) = Next [] \<and>
     nexts (snd (run env)) = length pre + 1 \<and>
     executes (snd (run env)) = length pre \<and>
     (\<forall>m. NotifyError m \<notin> set (snd (run env))) \<and>
     warnings (snd (importData env (preparedWorker env))) =
       map (\<lambda>i. rowIgnoredMessage (i + 1)
              (the (query_execute env i
                 (bindArgs (length (targetColumns (preparedWorker env))) (pre ! i)))))
         (failedRows env (length (targetColumns (preparedWorker env))) pre) \<and>
     (\<not> skipTransaction (config env) \<longrightarrow> Commit True \<in> set (snd (run env))) \<and>
     last (snd (run env)) = Finished True"
proof -
  let ?c = "length (targetColumns (preparedWorker env))"
  let ?evp = "snd (snd (prepareTable env (pluginWorker env)))"
  have ap: "all_pass env ?c 0 pre"
    using pre by (auto simp: all_pass_nth passes_def)
  have e: "env = env\<lparr>plugin_rows := pre @ [] # post\<rparr>"
    using rows by simp
  have 0: "run env = run (env\<lparr>plugin_rows := pre\<rparr>)"
    using run_rows_cong [where env = env and ?r1.0 = "pre @ [] # post" and ?r2.0 = pre]
      importData_empty_row [where env = env and pre = pre and post = post] e
    by simp
  have imp: "importData env (preparedWorker env) =
      (True, Prepare (theInsert env ?c) # passEvents env ?c 0 pre @ [Next []])"
    using importData_prefix [OF rows ap] by simp
  have log: "snd (run env) = [BeforeImport True, GetColumns] @ beginEvents env @ ?evp @
      Prepare (theInsert env ?c) # passEvents env ?c 0 pre @ [Next []] @
      commitEvents env @ createdEvents env (preparedWorker env) @ [AfterImport, Finished True]"
    using run_reached [OF reach] imp commit by (auto simp: commitEvents_def)
  have 1: "fst (importData env (preparedWorker env))"
    and 2: "last (snd (importData env (preparedWorker env))) = Next []"
    by (simp_all add: imp)
  have 3: "nexts (snd (run env)) = length pre + 1" and 4: "executes (snd (run env)) = length pre"
    unfolding log
    by (simp_all add: beginEvents_def commitEvents_def createdEvents_def prepare_counts
        passEvents_counts)
  have 5: "NotifyError m \<notin> set (snd (run env))" for m
    unfolding log using prepare_ok_no_error [OF reach(4)]
    by (simp add: beginEvents_def commitEvents_def createdEvents_def passEvents_no_error)
  have 6: "warnings (snd (importData env (preparedWorker env))) =
       map (\<lambda>i. rowIgnoredMessage (i + 1) (the (query_execute env i (bindArgs ?c (pre ! i)))))
         (failedRows env ?c pre)"
    using passEvents_warnings [of env ?c 0 pre] by (simp add: imp failedRows_def)
  have 7: "last (snd (run env)) = Finished True" unfolding log by simp
  have 8: "\<not> skipTransaction (config env) \<longrightarrow> Commit True \<in> set (snd (run env))"
    unfolding log by (simp add: commitEvents_def)
  from 0 1 2 3 4 5 6 7 8 show ?thesis by blast
qed


theorem empty_row_ends_stream_witness:
  "plugin_rows example_empty_row_env = [[Text ''ann'', Number 31]] @ [] # [[Text ''cy'']] \<and>
   nexts (snd (run example_empty_row_env)) = 2 \<and>
   executes (snd (run example_empty_row_env)) = 1 \<and>
   last (snd (run example_empty_row_env)) = Finished True"
proof -
  have reach: "plugin_beforeImport example_empty_row_env"
      "plugin_getColumns example_empty_row_env \<noteq> []"
      "skipTransaction (config example_empty_row_env) \<or> db_begin example_empty_row_env"
    by (simp_all add: example_empty_row_env_def example_env_def)
  have rows: "plugin_rows example_empty_row_env =
      [[Text ''ann'', Number 31]] @ [] # [[Text ''cy'']]"
    and commit: "skipTransaction (config example_empty_row_env) \<or>
      db_commit example_empty_row_env"
    by (simp_all add: example_empty_row_env_def example_env_def)
  have pre: "\<forall>i < length [[Text ''ann'', Number 31]]. [[Text ''ann'', Number 31]] ! i \<noteq> [] \<and>
      (query_execute example_empty_row_env i
         (bindArgs (length (targetColumns (preparedWorker example_empty_row_env)))
            ([[Text ''ann'', Number 31]] ! i)) = None \<or>
       ignoreErrors (config example_empty_row_env)) \<and>
      (i mod 100 = 0 \<longrightarrow> \<not> interrupted_at_row example_empty_row_env i)"
    by (simp add: example_empty_row_env_def example_env_def)
  from empty_row_ends_stream [OF reach example_empty_row_prepared(1) rows pre commit]
  have "nexts (snd (run example_empty_row_env)) = length [[Text ''ann'', Number 31]] + 1 \<and>
      executes (snd (run example_empty_row_env)) = length [[Text ''ann'', Number 31]] \<and>
      last (snd (run example_empty_row_env)) = Finished True"
    by blast
  with rows show ?thesis by simp
qed

subsection \<open>C10: the polls during the insertion\<close>

text \<open>
  C10. In the trace of \<open>importData\<close> every poll of the flag comes after a number of
  executed rows that is \<open>1\<close> modulo \<open>100\<close>: the flag is read when the zero-based
  counter is a multiple of \<open>100\<close>, after the statement of that row. When every row
  lets the loop go on, the polls come after exactly the rows \<open>i + 1\<close> with \<open>i\<close> a
  multiple of \<open>100\<close> below the number of rows: after rows \<open>1, 101, 201, ...\<close>. In
  particular, when the run reaches the insertion (so the poll of \<open>prepareTable\<close> read
  the flag as not set), the first row is not empty and its statement succeeds or its error
  is ignored, and the flag is set when it is read after that row, then exactly one row is
  fetched and executed, the polls are the one before the insertion and the one after the
  first row, and the run ends as interrupted.
\<close>

theorem insertion_polls:
  "(\<forall>p \<in> set (poll_positions 0 (snd (importData env w))). p mod 100 = 1) \<and>
   ((\<forall>i < length (plugin_rows env).
       plugin_rows env ! i \<noteq> [] \<and>
       (query_execute env i (bindArgs (length (targetColumns w)) (plugin_rows env ! i)) = None \<or>
        ignoreErrors (config env)) \<and>
       (i mod 100 = 0 \<longrightarrow> \<not> interrupted_at_row env i)) \<longrightarrow>
    poll_positions 0 (snd (importData env w)) =
      map Suc (filter (\<lambda>i. i mod 100 = 0) [0 ..< length (plugin_rows env)])) \<and>
   (plugin_beforeImport env \<and> plugin_getColumns env \<noteq> [] \<and>
    (skipTransaction (config env) \<or> db_begin env) \<and>
    fst (prepareTable env (pluginWorker env)) \<and>
    plugin_rows env = row # rest \<and> row \<noteq> [] \<and>
    (query_execute env 0 (bindArgs (length (targetColumns (preparedWorker env))) row) = None \<or>
     ignoreErrors (config env)) \<and>
    interrupted_at_row env 0 \<longrightarrow>
    executes (snd (run env)) = 1 \<and> nexts (snd (run env)) = 1 \<and>
    poll_positions 0 (snd (run env)) = [0, 1] \<and>
    (\<exists>before. snd (run env) =
       before @ [IsInterrupted True, NotifyError ''Error while importing data: Interrupted.'',
                 AfterImport, Finished False] @
       (if skipTransaction (config env) then [] else [Rollback])))"
proof -
  have A: "\<forall>p \<in> set (poll_positions 0 (snd (importData env w))). p mod 100 = 1"
    using importLoop_polls_mod [of _ 0 env] by (simp add: importData_polls)
  have B: "poll_positions 0 (snd (importData env w)) =
      map Suc (filter (\<lambda>i. i mod 100 = 0) [0 ..< length (plugin_rows env)])"
    if "\<forall>i < length (plugin_rows env).
       plugin_rows env ! i \<noteq> [] \<and>
       (query_execute env i (bindArgs (length (targetColumns w)) (plugin_rows env ! i)) = None \<or>
        ignoreErrors (config env)) \<and>
       (i mod 100 = 0 \<longrightarrow> \<not> interrupted_at_row env i)"
  proof -
    have "all_pass env (length (targetColumns w)) 0 (plugin_rows env)"
      using that by (auto simp: all_pass_nth passes_def)
    from importData_all_pass [OF this] show ?thesis
      using passEvents_polls [of 0 env "length (targetColumns w)" "plugin_rows env"]
      by (simp add: poll_positions_append)
  qed
  have C: "executes (snd (run env)) = 1 \<and> nexts (snd (run env)) = 1 \<and>
    poll_positions 0 (snd (run env)) = [0, 1] \<and>
    (\<exists>before. snd (run env) =
       before @ [IsInterrupted True, NotifyError ''Error while importing data: Interrupted.'',
                 AfterImport, Finished False] @
       (if skipTransaction (config env) then [] else [Rollback]))"
    if reach: "plugin_beforeImport env" "plugin_getColumns env \<noteq> []"
      "skipTransaction (config env) \<or> db_begin env"
      "fst (prepareTable env (pluginWorker env))"
    and rows: "plugin_rows env = row # rest" "row \<noteq> []"
    and ok: "query_execute env 0 (bindArgs (length (targetColumns (preparedWorker env))) row) = None \<or>
       ignoreErrors (config env)"
    and intr: "interrupted_at_row env 0"
  proof -
    let ?c = "length (targetColumns (preparedWorker env))"
    let ?evp = "snd (snd (prepareTable env (pluginWorker env)))"
    let ?res = "query_execute env 0 (bindArgs ?c row)"
    let ?warn = "case ?res of None \<Rightarrow> [] | Some e \<Rightarrow> [NotifyWarn (rowIgnoredMessage 1 e)]"
    have imp: "importData env (preparedWorker env) =
        (False, Prepare (theInsert env ?c) # [Next row, Execute (bindArgs ?c row) ?res] @ ?warn @
           [IsInterrupted True] @ error interruptedMessage)"
      using rows ok intr by (auto simp: importData_def Let_def split: option.splits)
    have log: "snd (run env) = ([BeforeImport True, GetColumns] @ beginEvents env @ ?evp @
        Prepare (theInsert env ?c) # [Next row, Execute (bindArgs ?c row) ?res] @ ?warn) @
        [IsInterrupted True, NotifyError ''Error while importing data: Interrupted.'',
         AfterImport, Finished False] @
        (if skipTransaction (config env) then [] else [Rollback])"
      using run_reached [OF reach] imp
      by (simp add: error_def interruptedMessage_def rollbackUnlessSkipped_def)
    have 1: "executes (snd (run env)) = 1" "nexts (snd (run env)) = 1"
      unfolding log
      by (simp_all add: beginEvents_def prepare_counts split: option.splits)
    have 2: "poll_positions 0 (snd (run env)) = [0, 1]"
      unfolding log using prepare_polls(2) [OF reach(4), of 0]
      by (simp add: poll_positions_append beginEvents_def prepare_counts split: option.splits)
    from 1 2 log show ?thesis by blast
  qed
  from A B C show ?thesis by blast
qed


theorem insertion_polls_witness:
  "interrupted_at_row example_interrupted_env 0 \<and>
   executes (snd (run example_interrupted_env)) = 1 \<and>
   nexts (snd (run example_interrupted_env)) = 1 \<and>
   poll_positions 0 (snd (run example_interrupted_env)) = [0, 1]"
proof -
  have h: "plugin_beforeImport example_interrupted_env \<and>
      plugin_getColumns example_interrupted_env \<noteq> [] \<and>
      (skipTransaction (config example_interrupted_env) \<or> db_begin example_interrupted_env) \<and>
      fst (prepareTable example_interrupted_env (pluginWorker example_interrupted_env)) \<and>
      plugin_rows example_interrupted_env =
        [Text ''ann'', Number 31] # [[Text ''bob''], [Text ''cy'', Number 7, Number 9]] \<and>
      [Text ''ann'', Number 31] \<noteq> [] \<and>
      (query_execute example_interrupted_env 0
         (bindArgs (length (targetColumns (preparedWorker example_interrupted_env)))
            [Text ''ann'', Number 31]) = None \<or>
       ignoreErrors (config example_interrupted_env)) \<and>
      interrupted_at_row example_interrupted_env 0"
    using example_interrupted_prepared(1)
    by (simp add: example_interrupted_env_def example_env_def)
  from insertion_polls [of example_interrupted_env "preparedWorker example_interrupted_env"
      "[Text ''ann'', Number 31]" "[[Text ''bob''], [Text ''cy'', Number 7, Number 9]]"] h
  show ?thesis by blast
qed

end
